theory Spec2Isabelle
  imports Complex_Main
begin

section \<open>Python values\<close>

text \<open>
  The helpers of \<^verbatim>\<open>causalpy/utils.py\<close> work on the cells of a pandas column and on
  floating-point numbers. A float is modelled by the exact real number it stands for;
  the four values of IEEE arithmetic that are not such a number, or that differ from one
  only in their sign bit, are constructors of their own.
\<close>

datatype pyfloat = Finite real | NegZero | PosInf | NegInf | NaN

datatype pyval = PyInt int | PyBool bool | PyFloat pyfloat | PyStr string | PyNone

datatype py_error = AttributeError | ValueError | OverflowError

text \<open>\<^verbatim>\<open>a == b\<close> on two floats: NaN equals nothing, the two zeros are equal.\<close>

fun float_eq :: "pyfloat \<Rightarrow> pyfloat \<Rightarrow> bool" where
  "float_eq NaN _ = False"
| "float_eq _ NaN = False"
| "float_eq (Finite a) (Finite b) = (a = b)"
| "float_eq (Finite a) NegZero = (a = 0)"
| "float_eq NegZero (Finite b) = (b = 0)"
| "float_eq NegZero NegZero = True"
| "float_eq PosInf PosInf = True"
| "float_eq NegInf NegInf = True"
| "float_eq _ _ = False"

text \<open>
  The numeric tower: \<^verbatim>\<open>bool\<close> is a subclass of \<^verbatim>\<open>int\<close> with \<^verbatim>\<open>True == 1\<close> and
  \<^verbatim>\<open>False == 0\<close>, and an int is compared with a float by value.
\<close>

fun num_of :: "pyval \<Rightarrow> pyfloat option" where
  "num_of (PyInt i) = Some (Finite (of_int i))"
| "num_of (PyBool b) = Some (Finite (if b then 1 else 0))"
| "num_of (PyFloat f) = Some f"
| "num_of (PyStr s) = None"
| "num_of PyNone = None"

definition py_eq :: "pyval \<Rightarrow> pyval \<Rightarrow> bool" where
  "py_eq x y =
     (case (num_of x, num_of y) of
        (Some a, Some b) \<Rightarrow> float_eq a b
      | (None, None) \<Rightarrow> x = y
      | _ \<Rightarrow> False)"

subsection \<open>Built-in sets\<close>

text \<open>
  A Python \<^verbatim>\<open>set\<close> keeps one representative of every class of equal elements (equal
  numbers hash alike, so the hash never separates what \<^verbatim>\<open>==\<close> joins). It is modelled by
  the list of its elements in insertion order. Cells read out of a numeric column are
  fresh objects, so two NaN cells are two elements of the set.
\<close>

definition py_contains :: "pyval list \<Rightarrow> pyval \<Rightarrow> bool" where
  "py_contains s x = (\<exists>y \<in> set s. py_eq y x)"

definition py_add :: "pyval list \<Rightarrow> pyval \<Rightarrow> pyval list" where
  "py_add s x = (if py_contains s x then s else s @ [x])"

definition py_set :: "pyval list \<Rightarrow> pyval list" where
  "py_set xs = foldl py_add [] xs"

definition py_difference :: "pyval list \<Rightarrow> pyval list \<Rightarrow> pyval list" where
  "py_difference s t = filter (\<lambda>x. \<not> py_contains t x) s"

section \<open>Columns\<close>

text \<open>
  A pandas \<^verbatim>\<open>Series\<close>: its cells in order and, when the column has the categorical
  dtype, the categories that dtype declares (\<open>None\<close> for every other dtype).
\<close>

record series =
  cells :: "pyval list"
  cat_dtype :: "pyval list option"

subsection \<open>\<^verbatim>\<open>_is_variable_dummy_coded\<close>\<close>

text \<open>\<^verbatim>\<open>return len(set(series).difference(set([0, 1]))) == 0\<close>\<close>

definition is_variable_dummy_coded :: "series \<Rightarrow> bool" where
  "is_variable_dummy_coded series =
     (length (py_difference (py_set (cells series)) (py_set [PyInt 0, PyInt 1])) = 0)"

subsection \<open>\<^verbatim>\<open>_series_has_2_levels\<close>\<close>

text \<open>
  \<^verbatim>\<open>pd.Categorical(values)\<close> called with nothing but the values: when the values already
  have the categorical dtype, pandas takes that dtype over, with every category it
  declares; otherwise the categories are the distinct values that are not missing
  (\<^verbatim>\<open>None\<close> and NaN are missing). pandas also sorts them when they can be ordered; the
  order plays no part in their number, and is left out.
\<close>

definition isna :: "pyval \<Rightarrow> bool" where
  "isna v = (v = PyNone \<or> v = PyFloat NaN)"

definition observed_labels :: "pyval list \<Rightarrow> pyval list" where
  "observed_labels xs = py_set (filter (\<lambda>v. \<not> isna v) xs)"

definition categorical_categories :: "series \<Rightarrow> pyval list" where
  "categorical_categories series =
     (case cat_dtype series of
        Some declared \<Rightarrow> declared
      | None \<Rightarrow> observed_labels (cells series))"

text \<open>The cells of a column that are not NaN, in their order.\<close>

definition without_nan :: "pyval list \<Rightarrow> pyval list" where
  "without_nan xs = filter (\<lambda>v. v \<noteq> PyFloat NaN) xs"

text \<open>
  What the specification asks of the data: two labels that differ occur among the
  cells, and every cell that is not missing equals one of them.
\<close>

definition exactly_two_labels_occur :: "pyval list \<Rightarrow> bool" where
  "exactly_two_labels_occur xs =
     (\<exists>a \<in> set xs. \<exists>b \<in> set xs. \<not> isna a \<and> \<not> isna b \<and> \<not> py_eq a b
        \<and> (\<forall>v \<in> set xs. isna v \<or> py_eq v a \<or> py_eq v b))"

text \<open>No two elements of the list are equal in Python's sense.\<close>

fun py_distinct :: "pyval list \<Rightarrow> bool" where
  "py_distinct [] = True"
| "py_distinct (x # xs) = (\<not> py_contains xs x \<and> py_distinct xs)"

text \<open>\<^verbatim>\<open>return len(pd.Categorical(series).categories) == 2\<close>\<close>

definition series_has_2_levels :: "series \<Rightarrow> bool" where
  "series_has_2_levels series = (length (categorical_categories series) = 2)"

section \<open>Numbers and their rendering\<close>

subsection \<open>numpy and the built-in \<^verbatim>\<open>int\<close>\<close>

fun np_abs :: "pyfloat \<Rightarrow> pyfloat" where
  "np_abs (Finite r) = Finite \<bar>r\<bar>"
| "np_abs NegZero = Finite 0"
| "np_abs PosInf = PosInf"
| "np_abs NegInf = PosInf"
| "np_abs NaN = NaN"

text \<open>
  \<^verbatim>\<open>np.log10\<close>. On a positive finite number the result is the float that numpy's
  logarithm rounds to: that function \<open>lg\<close> is a parameter of the functions below. At
  zero numpy returns \<open>-inf\<close>, below zero NaN.
\<close>

fun np_log10 :: "(real \<Rightarrow> real) \<Rightarrow> pyfloat \<Rightarrow> pyfloat" where
  "np_log10 lg (Finite r) = (if 0 < r then Finite (lg r) else if r = 0 then NegInf else NaN)"
| "np_log10 lg NegZero = NegInf"
| "np_log10 lg PosInf = PosInf"
| "np_log10 lg NegInf = NaN"
| "np_log10 lg NaN = NaN"

text \<open>
  The float nearest to a real number, a tie going to the even significand: 53
  significant bits, and below \<open>2\<^sup>-\<^sup>1\<^sup>0\<^sup>2\<^sup>2\<close> the fixed spacing \<open>2\<^sup>-\<^sup>1\<^sup>0\<^sup>7\<^sup>4\<close> of the subnormal
  numbers. (Overflow is left out: the numbers rounded here are logarithms of floats,
  none of which reaches 309.)
\<close>

definition round_half_even :: "real \<Rightarrow> int" where
  "round_half_even x =
     (let f = \<lfloor>x\<rfloor>; d = x - of_int f
      in if d < 1 / 2 then f else if 1 / 2 < d then f + 1 else if even f then f else f + 1)"

definition round_to_double :: "real \<Rightarrow> real" where
  "round_to_double z =
     (if z = 0 then 0
      else (let e = max \<lfloor>log 2 \<bar>z\<bar>\<rfloor> (- 1022); u = 2 powi (e - 52)
            in of_int (round_half_even (z / u)) * u))"

text \<open>
  The logarithm as numpy returns it, for the parameter \<open>lg\<close>: the float nearest to the
  logarithm to base 10.
\<close>

definition float_log10 :: "real \<Rightarrow> real" where
  "float_log10 x = round_to_double (log 10 x)"

text \<open>\<^verbatim>\<open>int(x)\<close> cuts the fraction off (towards zero) and raises on infinities and NaN.\<close>

fun py_int :: "pyfloat \<Rightarrow> py_error + int" where
  "py_int (Finite r) = Inr (if r < 0 then \<lceil>r\<rceil> else \<lfloor>r\<rfloor>)"
| "py_int NegZero = Inr 0"
| "py_int PosInf = Inl OverflowError"
| "py_int NegInf = Inl OverflowError"
| "py_int NaN = Inl ValueError"

subsection \<open>\<^verbatim>\<open>_format_sig_figs\<close>\<close>

text \<open>
  \<^verbatim>\<open>
  if default is None:
      default = 2
  if value == 0:
      return 1
  return max(int(np.log10(np.abs(value))) + 1, default)
  \<close>
  The argument \<^verbatim>\<open>default\<close> is \<open>dflt\<close> here, \<^verbatim>\<open>None\<close> when the caller leaves it out.
\<close>

definition format_sig_figs :: "(real \<Rightarrow> real) \<Rightarrow> pyfloat \<Rightarrow> int option \<Rightarrow> py_error + int" where
  "format_sig_figs lg v dflt =
     (let dflt = (case dflt of None \<Rightarrow> 2 | Some d \<Rightarrow> d)
      in if float_eq v (Finite 0) then Inr 1
         else (case py_int (np_log10 lg (np_abs v)) of
                 Inl e \<Rightarrow> Inl e
               | Inr k \<Rightarrow> Inr (max (k + 1) dflt)))"

subsection \<open>Format specifications of floats\<close>

text \<open>
  Python renders a float from its exact value, rounded correctly to the digits asked
  for, a tie going to the even digit (\<open>round_half_even\<close>).
\<close>

definition digit_char :: "nat \<Rightarrow> char" where
  "digit_char d = ''0123456789'' ! d"

fun show_nat :: "nat \<Rightarrow> string" where
  "show_nat n =
     (if n < 10 then [digit_char n] else show_nat (n div 10) @ [digit_char (n mod 10)])"

declare show_nat.simps [simp del]

text \<open>Reading digits back: the number a string of decimal digits denotes.\<close>

definition is_digit :: "char \<Rightarrow> bool" where
  "is_digit c = (c \<in> set ''0123456789'')"

definition digit_value :: "char \<Rightarrow> nat" where
  "digit_value c = of_char c - 48"

definition read_nat :: "string \<Rightarrow> nat" where
  "read_nat s = foldl (\<lambda>n c. 10 * n + digit_value c) 0 s"

definition zero_pad :: "nat \<Rightarrow> string \<Rightarrow> string" where
  "zero_pad w s = replicate (w - length s) (CHR ''0'') @ s"

text \<open>The digits before and after the point of \<open>a \<ge> 0\<close> with \<open>p\<close> decimals.\<close>

definition fixed_digits :: "nat \<Rightarrow> real \<Rightarrow> string \<times> string" where
  "fixed_digits p a =
     (let n = nat (round_half_even (a * 10 ^ p))
      in (show_nat (n div 10 ^ p),
          if p = 0 then [] else zero_pad p (show_nat (n mod 10 ^ p))))"

definition with_point :: "string \<Rightarrow> string \<Rightarrow> string" where
  "with_point i f = (if f = [] then i else i @ ''.'' @ f)"

definition strip_zeros :: "string \<Rightarrow> string" where
  "strip_zeros f = rev (dropWhile (\<lambda>c. c = CHR ''0'') (rev f))"

text \<open>\<^verbatim>\<open>f"{v:.{p}f}"\<close>: fixed point with \<open>p\<close> decimals.\<close>

fun py_format_f :: "nat \<Rightarrow> pyfloat \<Rightarrow> string" where
  "py_format_f p (Finite r) =
     (let (i, f) = fixed_digits p \<bar>r\<bar> in (if r < 0 then ''-'' else []) @ with_point i f)"
| "py_format_f p NegZero = (let (i, f) = fixed_digits p 0 in ''-'' @ with_point i f)"
| "py_format_f p PosInf = ''inf''"
| "py_format_f p NegInf = ''-inf''"
| "py_format_f p NaN = ''nan''"

declare py_format_f.simps [simp del]

text \<open>
  The decimal exponent of \<open>a > 0\<close>, the \<open>e\<close> with \<open>10\<^sup>e \<le> a < 10\<^sup>e\<^sup>+\<^sup>1\<close>, read off the number
  of digits of the integer part of \<open>a\<close> (of \<open>1 / a\<close> when \<open>a < 1\<close>).
\<close>

fun ndigits :: "nat \<Rightarrow> nat" where
  "ndigits n = (if n < 10 then 1 else Suc (ndigits (n div 10)))"

declare ndigits.simps [simp del]

definition decimal_exponent :: "real \<Rightarrow> int" where
  "decimal_exponent a =
     (if 1 \<le> a then int (ndigits (nat \<lfloor>a\<rfloor>)) - 1
      else - int (ndigits (nat (\<lceil>1 / a\<rceil> - 1))))"

text \<open>
  \<open>a > 0\<close> rounded to \<open>P\<close> significant digits: the digits as a number, and the exponent of
  the first of them (one more than that of \<open>a\<close> when rounding carries into a new digit).
\<close>

definition sci_parts :: "nat \<Rightarrow> real \<Rightarrow> nat \<times> int" where
  "sci_parts P a =
     (let e0 = decimal_exponent a;
          m0 = nat (round_half_even (a / 10 powi (e0 - (int P - 1))))
      in if m0 = 10 ^ P then (10 ^ (P - 1), e0 + 1) else (m0, e0))"

text \<open>
  The general format with \<open>P \<ge> 1\<close> significant digits of \<open>a > 0\<close>: fixed point when the
  exponent \<open>X\<close> of the rounded number has \<open>-4 \<le> X < P\<close>, scientific otherwise; the zeros
  that end the fraction are dropped, and the point with them when nothing follows it.
\<close>

definition general_digits :: "nat \<Rightarrow> real \<Rightarrow> string" where
  "general_digits P a =
     (let (m, X) = sci_parts P a
      in if - 4 \<le> X \<and> X < int P
         then (let (i, f) = fixed_digits (nat (int P - 1 - X)) a in with_point i (strip_zeros f))
         else (let ds = show_nat m
               in with_point (take 1 ds) (strip_zeros (drop 1 ds))
                  @ ''e'' @ (if X < 0 then ''-'' else ''+'') @ zero_pad 2 (show_nat (nat \<bar>X\<bar>))))"

text \<open>
  \<^verbatim>\<open>f"{v:.{precision}g}"\<close>. A negative precision is no format specification, and
  one above \<open>2\<^sup>3\<^sup>1 - 1\<close> is too big (\<^verbatim>\<open>ValueError\<close> both); precision 0 counts as 1.
\<close>

definition py_format_g :: "int \<Rightarrow> pyfloat \<Rightarrow> py_error + string" where
  "py_format_g precision v =
     (if precision < 0 \<or> 2147483647 < precision then Inl ValueError
      else (let P = (if precision = 0 then 1 else nat precision)
            in Inr (case v of
                      Finite r \<Rightarrow>
                        if r = 0 then ''0''
                        else (if r < 0 then ''-'' else []) @ general_digits P \<bar>r\<bar>
                    | NegZero \<Rightarrow> ''-0''
                    | PosInf \<Rightarrow> ''inf''
                    | NegInf \<Rightarrow> ''-inf''
                    | NaN \<Rightarrow> ''nan'')))"

subsection \<open>\<^verbatim>\<open>round_num\<close>\<close>

text \<open>
  \<^verbatim>\<open>
  sig_figs = _format_sig_figs(n, round_to)
  return f"{n:.{sig_figs}g}"
  \<close>
\<close>

definition round_num :: "(real \<Rightarrow> real) \<Rightarrow> pyfloat \<Rightarrow> int option \<Rightarrow> py_error + string" where
  "round_num lg n round_to =
     (case format_sig_figs lg n round_to of
        Inl e \<Rightarrow> Inl e
      | Inr sig_figs \<Rightarrow> py_format_g sig_figs n)"

subsection \<open>\<^verbatim>\<open>convert_to_string\<close>\<close>

text \<open>
  The argument is a Python scalar or an xarray \<^verbatim>\<open>DataArray\<close>. Of a \<^verbatim>\<open>DataArray\<close> the
  function uses two methods, both of xarray and parameters here: \<open>quantile x q\<close>, the
  entry for the level \<open>q\<close> of \<^verbatim>\<open>x.quantile([...]).values\<close>, and \<open>mean x\<close>, the number
  in \<^verbatim>\<open>x.mean().values\<close>. No scalar of the model has an attribute \<^verbatim>\<open>quantile\<close>.
\<close>

datatype 'x arg = Scalar pyval | DataArray 'x

text \<open>The raw string \<^verbatim>\<open>r"$CI_{94\%}$"\<close>, its backslash included.\<close>

definition ci_label :: string where
  "ci_label = ''$CI_{94'' @ [CHR 0x5C] @ ''%}$''"

text \<open>
  \<^verbatim>\<open>
  if isinstance(x, float):
      return f"{x:.2f}"
  else:
      percentiles = x.quantile([0.03, 1 - 0.03]).values
      ci = (r"$CI_{94\%}$"
            + f"[{round_num(percentiles[0], round_to)}, {round_num(percentiles[1], round_to)}]")
      return f"{x.mean().values:.2f}" + ci
  \<close>
\<close>

definition convert_to_string ::
  "(real \<Rightarrow> real) \<Rightarrow> ('x \<Rightarrow> real \<Rightarrow> pyfloat) \<Rightarrow> ('x \<Rightarrow> pyfloat) \<Rightarrow> 'x arg \<Rightarrow> int option
     \<Rightarrow> py_error + string" where
  "convert_to_string lg quantile mean x round_to =
     (case x of
        Scalar (PyFloat f) \<Rightarrow> Inr (py_format_f 2 f)
      | Scalar _ \<Rightarrow> Inl AttributeError
      | DataArray a \<Rightarrow>
          (let percentiles = map (quantile a) [3 / 100, 1 - 3 / 100]
           in case round_num lg (percentiles ! 0) round_to of
                Inl e \<Rightarrow> Inl e
              | Inr lower \<Rightarrow>
                  (case round_num lg (percentiles ! 1) round_to of
                     Inl e \<Rightarrow> Inl e
                   | Inr upper \<Rightarrow>
                       Inr (py_format_f 2 (mean a)
                            @ (ci_label @ ''['' @ lower @ '', '' @ upper @ '']'')))))"

text \<open>
  The levels \<^verbatim>\<open>0.03\<close> and \<^verbatim>\<open>1 - 0.03\<close> are floats too; the second is the very float
  that \<^verbatim>\<open>0.97\<close> denotes. They only select an entry of the result of \<open>quantile\<close>, and
  are written as the decimal numbers \<open>3 / 100\<close> and \<open>97 / 100\<close>.
\<close>



subsection \<open>Floats that literals denote\<close>

text \<open>
  The exact values of the floats that the literals \<^verbatim>\<open>3.14159\<close>, \<^verbatim>\<open>0.1234\<close>,
  \<^verbatim>\<open>123.4\<close>, \<^verbatim>\<open>1.999\<close>, \<^verbatim>\<open>99.96\<close>, \<^verbatim>\<open>0.0123\<close>, \<^verbatim>\<open>1.234e-05\<close> and
  \<^verbatim>\<open>999.9999999999999\<close> denote (53 significant bits each). The last is the float next
  below 1000.
\<close>

definition float_3_14159 :: real where
  "float_3_14159 = 3537115888337719 / 2 ^ 50"

definition float_0_1234 :: real where
  "float_0_1234 = 8891907104280307 / 2 ^ 56"

definition float_123_4 :: real where
  "float_123_4 = 4341751515761869 / 2 ^ 45"

definition float_1_999 :: real where
  "float_1_999 = 4501347827556811 / 2 ^ 51"




definition float_below_1000 :: real where
  "float_below_1000 = 8796093022207999 / 2 ^ 43"

text \<open>
  A \<^verbatim>\<open>DataArray\<close> as far as \<^verbatim>\<open>convert_to_string\<close> looks at it: its mean and its two
  percentiles.
\<close>

record summary =
  sm_mean :: pyfloat
  sm_lower :: pyfloat
  sm_upper :: pyfloat

definition sm_quantile :: "summary \<Rightarrow> real \<Rightarrow> pyfloat" where
  "sm_quantile x q = (if q = 3 / 100 then sm_lower x else if q = 97 / 100 then sm_upper x else NaN)"

section \<open>Properties of the dummy-coding check\<close>

lemma float_eq_sym: "float_eq a b = float_eq b a"
  by (cases a; cases b) auto

lemma float_eq_trans: "float_eq a b \<Longrightarrow> float_eq b c \<Longrightarrow> float_eq a c"
  by (cases a; cases b; cases c) auto

lemma py_eq_sym: "py_eq x y = py_eq y x"
  by (auto simp: py_eq_def float_eq_sym split: option.splits)

lemma py_eq_trans: "py_eq x y \<Longrightarrow> py_eq y z \<Longrightarrow> py_eq x z"
  by (auto simp: py_eq_def split: option.splits intro: float_eq_trans)

lemma py_contains_cong: "py_eq x y \<Longrightarrow> py_contains t x = py_contains t y"
  unfolding py_contains_def using py_eq_trans py_eq_sym by blast

lemma set_py_add: "set (py_add s x) \<subseteq> insert x (set s)"
  by (auto simp: py_add_def)

lemma set_foldl_py_add_subset: "set (foldl py_add s xs) \<subseteq> set s \<union> set xs"
proof (induction xs arbitrary: s)
  case Nil
  then show ?case by simp
next
  case (Cons a xs)
  from Cons.IH [of "py_add s a"] set_py_add [of s a] show ?case by auto
qed

lemma set_py_set_subset: "set (py_set xs) \<subseteq> set xs"
  using set_foldl_py_add_subset [of "[]" xs] by (simp add: py_set_def)

lemma py_add_keeps: "x \<in> set s \<Longrightarrow> x \<in> set (py_add s a)"
  by (simp add: py_add_def)

lemma foldl_py_add_keeps: "x \<in> set s \<Longrightarrow> x \<in> set (foldl py_add s xs)"
  by (induction xs arbitrary: s) (simp_all add: py_add_keeps)

lemma foldl_py_add_covers:
  "x \<in> set xs \<Longrightarrow> x \<in> set (foldl py_add s xs) \<or> (\<exists>y \<in> set (foldl py_add s xs). py_eq y x)"
proof (induction xs arbitrary: s)
  case Nil
  then show ?case by simp
next
  case (Cons a xs)
  show ?case
  proof (cases "x = a")
    case True
    show ?thesis
    proof (cases "py_contains s a")
      case True
      then obtain y where y: "y \<in> set s" "py_eq y a"
        by (auto simp: py_contains_def)
      then have "y \<in> set (foldl py_add (py_add s a) xs)"
        by (simp add: foldl_py_add_keeps py_add_keeps)
      with y \<open>x = a\<close> show ?thesis by auto
    next
      case False
      then have "a \<in> set (py_add s a)"
        by (simp add: py_add_def)
      then have "a \<in> set (foldl py_add (py_add s a) xs)"
        by (rule foldl_py_add_keeps)
      with \<open>x = a\<close> show ?thesis by simp
    qed
  next
    case False
    with Cons.prems have "x \<in> set xs" by simp
    from Cons.IH [OF this, of "py_add s a"] show ?thesis by simp
  qed
qed

lemma py_set_all_contained:
  "(\<forall>x \<in> set (py_set xs). py_contains t x) = (\<forall>x \<in> set xs. py_contains t x)"
proof
  assume "\<forall>x \<in> set xs. py_contains t x"
  then show "\<forall>x \<in> set (py_set xs). py_contains t x"
    using set_py_set_subset by blast
next
  assume all: "\<forall>x \<in> set (py_set xs). py_contains t x"
  show "\<forall>x \<in> set xs. py_contains t x"
  proof
    fix x assume "x \<in> set xs"
    from foldl_py_add_covers [OF this, of "[]"]
    consider "x \<in> set (py_set xs)" | y where "y \<in> set (py_set xs)" "py_eq y x"
      by (auto simp: py_set_def)
    then show "py_contains t x"
    proof cases
      case 1
      with all show ?thesis by blast
    next
      case 2
      with all py_contains_cong [of y x t] show ?thesis by blast
    qed
  qed
qed

lemma py_set_zero_one: "py_set [PyInt 0, PyInt 1] = [PyInt 0, PyInt 1]"
  by (simp add: py_set_def py_add_def py_contains_def py_eq_def)

lemma py_contains_zero_one:
  "py_contains [PyInt 0, PyInt 1] v = (py_eq v (PyInt 0) \<or> py_eq v (PyInt 1))"
  by (auto simp: py_contains_def py_eq_sym)

lemma is_variable_dummy_coded_member:
  "is_variable_dummy_coded s =
     (\<forall>v \<in> set (cells s). py_eq v (PyInt 0) \<or> py_eq v (PyInt 1))"
proof -
  have "is_variable_dummy_coded s =
          (\<forall>x \<in> set (py_set (cells s)). py_contains [PyInt 0, PyInt 1] x)"
    by (simp add: is_variable_dummy_coded_def py_difference_def py_set_zero_one
        filter_empty_conv)
  also have "\<dots> = (\<forall>x \<in> set (cells s). py_contains [PyInt 0, PyInt 1] x)"
    by (rule py_set_all_contained)
  finally show ?thesis
    by (simp add: py_contains_zero_one)
qed

text \<open>
  C1: \<^verbatim>\<open>_is_variable_dummy_coded\<close> returns true if and only if every value of the
  column is a member of \<^verbatim>\<open>{0, 1}\<close>, membership being Python's: the value equals 0 or
  equals 1. So the empty column and every column of 0s and 1s give true, and a column
  with any other value gives false.
\<close>

theorem is_variable_dummy_coded_iff:
  "is_variable_dummy_coded s =
     (\<forall>v \<in> set (cells s). py_eq v (PyInt 0) \<or> py_eq v (PyInt 1))"
  by (rule is_variable_dummy_coded_member)

theorem is_variable_dummy_coded_iff_witness:
  "is_variable_dummy_coded \<lparr>cells = [], cat_dtype = None\<rparr>
   \<and> is_variable_dummy_coded \<lparr>cells = [PyInt 0, PyInt 1, PyInt 1, PyInt 0], cat_dtype = None\<rparr>
   \<and> \<not> is_variable_dummy_coded \<lparr>cells = [PyInt 0, PyInt 1, PyInt 2], cat_dtype = None\<rparr>"
  using is_variable_dummy_coded_iff [of "\<lparr>cells = [], cat_dtype = None\<rparr>"]
    is_variable_dummy_coded_iff
      [of "\<lparr>cells = [PyInt 0, PyInt 1, PyInt 1, PyInt 0], cat_dtype = None\<rparr>"]
    is_variable_dummy_coded_iff [of "\<lparr>cells = [PyInt 0, PyInt 1, PyInt 2], cat_dtype = None\<rparr>"]
  by (simp add: py_eq_def)

text \<open>
  C8: a column of booleans only is dummy coded, since \<^verbatim>\<open>True == 1\<close> and
  \<^verbatim>\<open>False == 0\<close>.
\<close>

theorem is_variable_dummy_coded_bool:
  assumes "\<forall>v \<in> set (cells s). \<exists>b. v = PyBool b"
  shows "is_variable_dummy_coded s"
proof -
  have "py_eq (PyBool b) (PyInt 0) \<or> py_eq (PyBool b) (PyInt 1)" for b
    by (simp add: py_eq_def)
  with assms show ?thesis
    unfolding is_variable_dummy_coded_member by fastforce
qed

theorem is_variable_dummy_coded_bool_witness:
  "is_variable_dummy_coded \<lparr>cells = [PyBool True, PyBool False, PyBool True], cat_dtype = None\<rparr>"
proof -
  have bools: "\<forall>v \<in> set (cells \<lparr>cells = [PyBool True, PyBool False, PyBool True],
      cat_dtype = None\<rparr>). \<exists>b. v = PyBool b"
    by auto
  from is_variable_dummy_coded_bool [OF bools] show ?thesis .
qed

section \<open>Properties of the two-level check\<close>

lemma filter_isna_without_nan:
  "filter (\<lambda>v. \<not> isna v) (without_nan xs) = filter (\<lambda>v. \<not> isna v) xs"
  by (induction xs) (auto simp: without_nan_def isna_def)

lemma observed_labels_without_nan: "observed_labels (without_nan xs) = observed_labels xs"
  by (simp add: observed_labels_def filter_isna_without_nan)

lemma observed_labels_nan_invariant:
  assumes "without_nan ys = without_nan xs"
  shows "observed_labels ys = observed_labels xs"
  using assms observed_labels_without_nan [of xs] observed_labels_without_nan [of ys] by simp

lemma py_contains_Cons: "py_contains (y # s) x = (py_eq y x \<or> py_contains s x)"
  by (simp add: py_contains_def)

lemma py_contains_Nil: "py_contains [] x = False"
  by (simp add: py_contains_def)

lemma py_contains_append: "py_contains (s @ t) x = (py_contains s x \<or> py_contains t x)"
  by (auto simp: py_contains_def)

lemma py_distinct_snoc: "py_distinct (s @ [x]) = (py_distinct s \<and> \<not> py_contains s x)"
  by (induction s) (auto simp: py_contains_Cons py_contains_Nil py_contains_append py_eq_sym)

lemma py_distinct_py_add: "py_distinct s \<Longrightarrow> py_distinct (py_add s x)"
  by (simp add: py_add_def py_distinct_snoc)

lemma py_distinct_foldl: "py_distinct s \<Longrightarrow> py_distinct (foldl py_add s xs)"
  by (induction xs arbitrary: s) (simp_all add: py_distinct_py_add)

lemma py_distinct_py_set: "py_distinct (py_set xs)"
  by (simp add: py_set_def py_distinct_foldl)

lemma py_distinct_eq:
  "py_distinct L \<Longrightarrow> x \<in> set L \<Longrightarrow> y \<in> set L \<Longrightarrow> py_eq x y \<Longrightarrow> x = y"
  by (induction L) (auto simp: py_contains_def py_eq_sym)

lemma py_distinct_distinct:
  "py_distinct L \<Longrightarrow> \<forall>x \<in> set L. py_eq x x \<Longrightarrow> distinct L"
  by (induction L) (auto simp: py_contains_def)

lemma float_eq_refl: "f \<noteq> NaN \<Longrightarrow> float_eq f f"
  by (cases f) auto

lemma py_eq_refl: "\<not> isna v \<Longrightarrow> py_eq v v"
  by (cases v) (auto simp: isna_def py_eq_def float_eq_refl)

lemma py_set_covers:
  assumes "x \<in> set xs" and "py_eq x x"
  shows "\<exists>y \<in> set (py_set xs). py_eq y x"
  using foldl_py_add_covers [OF assms(1), of "[]"] assms(2) by (auto simp: py_set_def)

lemma length_py_set_two:
  assumes refl: "\<forall>v \<in> set xs. py_eq v v"
  shows "(length (py_set xs) = 2) =
     (\<exists>a \<in> set xs. \<exists>b \<in> set xs. \<not> py_eq a b \<and> (\<forall>v \<in> set xs. py_eq v a \<or> py_eq v b))"
proof
  assume "length (py_set xs) = 2"
  then obtain a b where ab: "py_set xs = [a, b]"
    by (auto simp: length_Suc_conv numeral_2_eq_2)
  have "py_distinct [a, b]"
    using py_distinct_py_set [of xs] by (simp add: ab)
  then have ne: "\<not> py_eq a b"
    by (simp add: py_contains_def py_eq_sym)
  have mem: "a \<in> set xs" "b \<in> set xs"
    using set_py_set_subset [of xs] by (auto simp: ab)
  have "py_eq v a \<or> py_eq v b" if "v \<in> set xs" for v
  proof -
    from that refl have "py_eq v v" by blast
    from py_set_covers [OF that this] show ?thesis
      by (auto simp: ab py_eq_sym)
  qed
  with ne mem show "\<exists>a \<in> set xs. \<exists>b \<in> set xs. \<not> py_eq a b
      \<and> (\<forall>v \<in> set xs. py_eq v a \<or> py_eq v b)"
    by blast
next
  assume "\<exists>a \<in> set xs. \<exists>b \<in> set xs. \<not> py_eq a b
      \<and> (\<forall>v \<in> set xs. py_eq v a \<or> py_eq v b)"
  then obtain a b where mem: "a \<in> set xs" "b \<in> set xs" and ne: "\<not> py_eq a b"
    and all: "\<forall>v \<in> set xs. py_eq v a \<or> py_eq v b"
    by blast
  let ?L = "py_set xs"
  have sub: "set ?L \<subseteq> set xs"
    by (rule set_py_set_subset)
  have dist: "py_distinct ?L"
    by (rule py_distinct_py_set)
  from mem refl obtain a' b' where a': "a' \<in> set ?L" "py_eq a' a" and b': "b' \<in> set ?L" "py_eq b' b"
    using py_set_covers by blast
  have "a' \<noteq> b'"
    using a'(2) b'(2) ne py_eq_sym py_eq_trans by blast
  have "c = a' \<or> c = b'" if c: "c \<in> set ?L" for c
  proof -
    from c sub all have "py_eq c a \<or> py_eq c b" by blast
    then have "py_eq c a' \<or> py_eq c b'"
      using a'(2) b'(2) py_eq_sym py_eq_trans by blast
    then show ?thesis
      using py_distinct_eq [OF dist c a'(1)] py_distinct_eq [OF dist c b'(1)] by blast
  qed
  with a'(1) b'(1) have "set ?L = {a', b'}"
    by blast
  moreover have "distinct ?L"
    using dist sub refl by (intro py_distinct_distinct) blast+
  ultimately have "length ?L = card {a', b'}"
    by (metis distinct_card)
  with \<open>a' \<noteq> b'\<close> show "length ?L = 2"
    by simp
qed

lemma length_observed_labels_two:
  "(length (observed_labels xs) = 2) = exactly_two_labels_occur xs"
proof -
  let ?ys = "filter (\<lambda>v. \<not> isna v) xs"
  have "\<forall>v \<in> set ?ys. py_eq v v"
    by (simp add: py_eq_refl)
  from length_py_set_two [OF this]
  have "(length (observed_labels xs) = 2) =
     (\<exists>a \<in> set ?ys. \<exists>b \<in> set ?ys. \<not> py_eq a b \<and> (\<forall>v \<in> set ?ys. py_eq v a \<or> py_eq v b))"
    by (simp only: observed_labels_def)
  also have "\<dots> = exactly_two_labels_occur xs"
    unfolding exactly_two_labels_occur_def by simp blast
  finally show ?thesis .
qed

lemma series_has_2_levels_cases:
  "series_has_2_levels s =
     (case cat_dtype s of
        None \<Rightarrow> exactly_two_labels_occur (cells s)
      | Some declared \<Rightarrow> length declared = 2)"
  by (simp add: series_has_2_levels_def categorical_categories_def length_observed_labels_two
      split: option.splits)

lemma exactly_two_labels_nan_invariant:
  assumes "without_nan ys = without_nan xs"
  shows "exactly_two_labels_occur ys = exactly_two_labels_occur xs"
  using observed_labels_nan_invariant [OF assms]
  by (simp add: length_observed_labels_two [symmetric])

lemma two_labels_a_b_a: "exactly_two_labels_occur [PyStr ''a'', PyStr ''b'', PyStr ''a'']"
  unfolding length_observed_labels_two [symmetric]
  by (simp add: observed_labels_def isna_def py_set_def py_add_def py_contains_def py_eq_def)

lemma two_labels_a_b: "exactly_two_labels_occur [PyStr ''a'', PyStr ''b'']"
  unfolding length_observed_labels_two [symmetric]
  by (simp add: observed_labels_def isna_def py_set_def py_add_def py_contains_def py_eq_def)

lemma series_has_2_levels_nan_invariant:
  assumes "without_nan ys = without_nan (cells s)"
  shows "series_has_2_levels (s\<lparr>cells := ys\<rparr>) = series_has_2_levels s"
  using exactly_two_labels_nan_invariant [OF assms]
  by (simp add: series_has_2_levels_cases split: option.splits)

text \<open>
  C2, as amended: \<^verbatim>\<open>_series_has_2_levels\<close> returns true if and only if the categories
  of \<^verbatim>\<open>pd.Categorical(series)\<close> are exactly two. For a column without the categorical
  dtype these are the distinct labels that occur in the data, missing values apart; for
  a column with the categorical dtype they are the labels the dtype declares, whether
  they occur or not.
\<close>

theorem series_has_2_levels_iff:
  "series_has_2_levels s =
     (case cat_dtype s of
        None \<Rightarrow> exactly_two_labels_occur (cells s)
      | Some declared \<Rightarrow> length declared = 2)"
  by (rule series_has_2_levels_cases)

theorem series_has_2_levels_iff_witness:
  "series_has_2_levels \<lparr>cells = [PyStr ''a'', PyStr ''b'', PyStr ''a''], cat_dtype = None\<rparr>
   \<and> \<not> series_has_2_levels \<lparr>cells = [PyStr ''a'', PyStr ''b'', PyStr ''c''], cat_dtype = None\<rparr>
   \<and> \<not> series_has_2_levels \<lparr>cells = [PyStr ''a'', PyStr ''a'', PyStr ''a''], cat_dtype = None\<rparr>
   \<and> series_has_2_levels
         \<lparr>cells = [PyStr ''a'', PyStr ''a'', PyStr ''a''], cat_dtype = Some [PyStr ''a'', PyStr ''b'']\<rparr>"
  using series_has_2_levels_iff [of "\<lparr>cells = [PyStr ''a'', PyStr ''b'', PyStr ''a''], cat_dtype = None\<rparr>"]
    series_has_2_levels_iff [of "\<lparr>cells = [PyStr ''a'', PyStr ''b'', PyStr ''c''], cat_dtype = None\<rparr>"]
    series_has_2_levels_iff [of "\<lparr>cells = [PyStr ''a'', PyStr ''a'', PyStr ''a''], cat_dtype = None\<rparr>"]
    series_has_2_levels_iff
      [of "\<lparr>cells = [PyStr ''a'', PyStr ''a'', PyStr ''a''], cat_dtype = Some [PyStr ''a'', PyStr ''b'']\<rparr>"]
  by (simp add: length_observed_labels_two [symmetric] observed_labels_def isna_def py_set_def
      py_add_def py_contains_def py_eq_def)

text \<open>
  The claim as the specification states it fails on a column of categorical dtype: the
  labels \<^verbatim>\<open>a\<close> and \<^verbatim>\<open>b\<close> occur, the dtype declares \<^verbatim>\<open>c\<close> as well, and the
  result is false.
\<close>

theorem series_has_2_levels_unused_category:
  "exactly_two_labels_occur (cells \<lparr>cells = [PyStr ''a'', PyStr ''b'', PyStr ''a''],
             cat_dtype = Some [PyStr ''a'', PyStr ''b'', PyStr ''c'']\<rparr>)
   \<and> \<not> series_has_2_levels \<lparr>cells = [PyStr ''a'', PyStr ''b'', PyStr ''a''],
             cat_dtype = Some [PyStr ''a'', PyStr ''b'', PyStr ''c'']\<rparr>"
  by (simp add: two_labels_a_b_a series_has_2_levels_def categorical_categories_def)

text \<open>
  C10, as amended: NaN is no category level. Two columns of one dtype that differ only
  in NaN cells get the same result; so adding NaN cells to a column keeps a true result
  true, and a column without the categorical dtype whose other values take exactly two
  distinct labels gives true however many NaN cells are added.
\<close>

theorem series_has_2_levels_nan:
  assumes "without_nan ys = without_nan (cells s)"
  shows "series_has_2_levels (s\<lparr>cells := ys\<rparr>) = series_has_2_levels s
         \<and> (cat_dtype s = None \<and> exactly_two_labels_occur (cells s)
              \<longrightarrow> series_has_2_levels (s\<lparr>cells := ys\<rparr>))"
  using series_has_2_levels_nan_invariant [OF assms]
  by (auto simp: series_has_2_levels_cases)

theorem series_has_2_levels_nan_witness:
  "without_nan [PyFloat NaN, PyStr ''a'', PyFloat NaN, PyStr ''b'', PyStr ''a'', PyFloat NaN]
     = without_nan (cells \<lparr>cells = [PyStr ''a'', PyStr ''b'', PyStr ''a''], cat_dtype = None\<rparr>)
   \<and> cat_dtype \<lparr>cells = [PyStr ''a'', PyStr ''b'', PyStr ''a''], cat_dtype = None\<rparr> = None
   \<and> exactly_two_labels_occur (cells \<lparr>cells = [PyStr ''a'', PyStr ''b'', PyStr ''a''],
         cat_dtype = None\<rparr>)
   \<and> series_has_2_levels
         \<lparr>cells = [PyFloat NaN, PyStr ''a'', PyFloat NaN, PyStr ''b'', PyStr ''a'', PyFloat NaN],
          cat_dtype = None\<rparr>"
proof -
  let ?s = "\<lparr>cells = [PyStr ''a'', PyStr ''b'', PyStr ''a''], cat_dtype = None\<rparr>"
  let ?ys = "[PyFloat NaN, PyStr ''a'', PyFloat NaN, PyStr ''b'', PyStr ''a'', PyFloat NaN]"
  have same: "without_nan ?ys = without_nan (cells ?s)"
    by (simp add: without_nan_def)
  have two: "exactly_two_labels_occur (cells ?s)"
    by (simp add: two_labels_a_b_a)
  have plain: "cat_dtype ?s = None"
    by simp
  from series_has_2_levels_nan [OF same] plain two
  have "series_has_2_levels (?s\<lparr>cells := ?ys\<rparr>)"
    by blast
  with same two show ?thesis
    by simp
qed

text \<open>
  Read for every column, the claim fails where C2 does: the values that are not missing
  take the two labels \<^verbatim>\<open>a\<close> and \<^verbatim>\<open>b\<close>, a NaN cell is added, and the result is false
  because the dtype declares a third label.
\<close>

theorem series_has_2_levels_nan_unused_category:
  "exactly_two_labels_occur (cells \<lparr>cells = [PyStr ''a'', PyStr ''b''],
             cat_dtype = Some [PyStr ''a'', PyStr ''b'', PyStr ''c'']\<rparr>)
   \<and> without_nan [PyStr ''a'', PyFloat NaN, PyStr ''b'']
       = without_nan (cells \<lparr>cells = [PyStr ''a'', PyStr ''b''],
             cat_dtype = Some [PyStr ''a'', PyStr ''b'', PyStr ''c'']\<rparr>)
   \<and> \<not> series_has_2_levels \<lparr>cells = [PyStr ''a'', PyFloat NaN, PyStr ''b''],
             cat_dtype = Some [PyStr ''a'', PyStr ''b'', PyStr ''c'']\<rparr>"
  by (simp add: two_labels_a_b series_has_2_levels_def categorical_categories_def
      without_nan_def)

section \<open>Properties of the significant-figures selector\<close>

lemma trunc_floor_max:
  fixes y :: real and d :: int
  assumes "1 \<le> d"
  shows "max ((if y < 0 then \<lceil>y\<rceil> else \<lfloor>y\<rfloor>) + 1) d = max (\<lfloor>y\<rfloor> + 1) d"
proof (cases "y < 0")
  case True
  then have "\<lceil>y\<rceil> \<le> 0" and "\<lfloor>y\<rfloor> < 0"
    by (simp_all add: ceiling_le_zero)
  with assms have "max (\<lceil>y\<rceil> + 1) d = d" and "max (\<lfloor>y\<rfloor> + 1) d = d"
    by linarith+
  with True show ?thesis by simp
next
  case False
  then show ?thesis by simp
qed

lemma format_sig_figs_finite:
  assumes "r \<noteq> 0"
  shows "format_sig_figs lg (Finite r) dflt =
     Inr (max ((if lg \<bar>r\<bar> < 0 then \<lceil>lg \<bar>r\<bar>\<rceil> else \<lfloor>lg \<bar>r\<bar>\<rfloor>) + 1)
            (case dflt of None \<Rightarrow> 2 | Some d \<Rightarrow> d))"
  using assms by (simp add: format_sig_figs_def)

lemma format_sig_figs_floor:
  assumes "r \<noteq> 0" and "1 \<le> d"
  shows "format_sig_figs lg (Finite r) (Some d) = Inr (max (\<lfloor>lg \<bar>r\<bar>\<rfloor> + 1) d)"
  using assms by (simp add: format_sig_figs_finite trunc_floor_max)

lemma format_sig_figs_None: "format_sig_figs lg v None = format_sig_figs lg v (Some 2)"
  by (simp add: format_sig_figs_def)

lemma format_sig_figs_is_zero:
  "float_eq v (Finite 0) \<Longrightarrow> format_sig_figs lg v dflt = Inr 1"
  by (simp add: format_sig_figs_def)

lemma np_abs_not_zero:
  "\<not> float_eq v (Finite 0) \<Longrightarrow> \<not> float_eq (np_abs v) (Finite 0)"
  by (cases v) auto

lemma np_log10_abs_not_neg_inf:
  "\<not> float_eq v (Finite 0) \<Longrightarrow> np_log10 lg (np_abs v) \<noteq> NegInf"
  by (cases v) auto

lemma floor_log10_eqI:
  fixes x :: real
  assumes "10 powi k \<le> x" and "x < 10 powi (k + 1)"
  shows "\<lfloor>log 10 x\<rfloor> = k"
proof -
  have pos: "0 < x"
    using assms(1) by (smt (verit) zero_less_power_int)
  have "(10::real) powr (of_int k) = 10 powi k"
    and "(10::real) powr (of_int (k + 1)) = 10 powi (k + 1)"
    by (rule powr_real_of_int', simp, simp)+
  with assms have "10 powr (of_int k) \<le> x \<and> x < 10 powr (of_int (k + 1))"
    by simp
  with pos show ?thesis
    using floor_log_eq_powr_iff [of x 10 k] by simp
qed

text \<open>
  The decimal exponent is the one the text above describes: it is the floor of the
  logarithm to base 10.
\<close>

lemma ndigits_bounds: "0 < n \<Longrightarrow> 10 ^ (ndigits n - 1) \<le> n \<and> n < 10 ^ ndigits n"
proof (induction n rule: ndigits.induct)
  case (1 n)
  show ?case
  proof (cases "n < 10")
    case True
    with "1.prems" show ?thesis
      by (subst (1 2) ndigits.simps) simp
  next
    case False
    then have pos: "0 < n div 10" by simp
    from "1.IH" [OF False pos]
    have lo: "10 ^ (ndigits (n div 10) - 1) \<le> n div 10" and hi: "n div 10 < 10 ^ ndigits (n div 10)"
      by simp_all
    have nd: "ndigits n = Suc (ndigits (n div 10))"
      using False by (subst ndigits.simps) simp
    have "0 < ndigits (n div 10)"
      by (subst ndigits.simps) simp
    then have "(10::nat) ^ ndigits (n div 10) = 10 * 10 ^ (ndigits (n div 10) - 1)"
      by (cases "ndigits (n div 10)") simp_all
    with lo have "10 ^ ndigits (n div 10) \<le> 10 * (n div 10)"
      by simp
    also have "\<dots> \<le> n"
      by simp
    finally have a: "10 ^ (ndigits n - 1) \<le> n"
      by (simp add: nd)
    from hi have "n div 10 + 1 \<le> 10 ^ ndigits (n div 10)"
      by simp
    then have "10 * (n div 10) + 10 \<le> 10 * 10 ^ ndigits (n div 10)"
      by simp
    moreover have "n < 10 * (n div 10) + 10"
      by presburger
    ultimately have "n < 10 ^ ndigits n"
      by (simp add: nd)
    with a show ?thesis by simp
  qed
qed

lemma real_power_le_of_nat: "10 ^ k \<le> (n::nat) \<Longrightarrow> (10::real) ^ k \<le> real n"
  by (metis of_nat_le_iff of_nat_numeral of_nat_power)

lemma real_of_nat_lt_power: "(n::nat) < 10 ^ k \<Longrightarrow> real n + 1 \<le> (10::real) ^ k"
proof -
  assume "n < 10 ^ k"
  then have "Suc n \<le> 10 ^ k"
    by (rule Suc_leI)
  then have "real (Suc n) \<le> (10::real) ^ k"
    by (metis of_nat_le_iff of_nat_numeral of_nat_power)
  then show ?thesis by simp
qed

lemma decimal_exponent_bounds:
  assumes "0 < a"
  shows "10 powi decimal_exponent a \<le> a \<and> a < 10 powi (decimal_exponent a + 1)"
proof (cases "1 \<le> a")
  case True
  define n where "n = nat \<lfloor>a\<rfloor>"
  from True have n: "0 < n"
    by (simp add: n_def)
  have dn: "0 < ndigits n"
    by (subst ndigits.simps) simp
  have e: "decimal_exponent a = int (ndigits n) - 1"
    using True by (simp add: decimal_exponent_def n_def)
  from True have "real n = of_int \<lfloor>a\<rfloor>"
    by (simp add: n_def)
  then have na: "real n \<le> a" and an: "a < real n + 1"
    by linarith+
  from ndigits_bounds [OF n] have lo: "10 ^ (ndigits n - 1) \<le> n" and hi: "n < 10 ^ ndigits n"
    by simp_all
  from real_power_le_of_nat [OF lo] na have A: "(10::real) ^ (ndigits n - 1) \<le> a"
    by linarith
  from real_of_nat_lt_power [OF hi] an have B: "a < (10::real) ^ ndigits n"
    by linarith
  have k: "int (ndigits n) - 1 = int (ndigits n - 1)"
    using dn by linarith
  have q1: "(10::real) powi (int (ndigits n) - 1) = 10 ^ (ndigits n - 1)"
    by (simp only: k power_int_of_nat)
  have "int (ndigits n) - 1 + 1 = int (ndigits n)"
    by linarith
  then have q2: "(10::real) powi (int (ndigits n) - 1 + 1) = 10 ^ ndigits n"
    by (simp only: power_int_of_nat)
  from A B show ?thesis
    unfolding e q1 q2 by (rule conjI)
next
  case False
  define b where "b = 1 / a"
  define m where "m = nat (\<lceil>b\<rceil> - 1)"
  from False assms have b1: "1 < b"
    by (simp add: b_def)
  then have c2: "2 \<le> \<lceil>b\<rceil>"
    by linarith
  then have m: "0 < m"
    by (simp add: m_def)
  have dm: "0 < ndigits m"
    by (subst ndigits.simps) simp
  have e: "decimal_exponent a = - int (ndigits m)"
    using False by (simp add: decimal_exponent_def m_def b_def)
  from c2 have "real m = of_int \<lceil>b\<rceil> - 1"
    by (simp add: m_def)
  then have mb: "real m < b" and bm: "b \<le> real m + 1"
    by linarith+
  from ndigits_bounds [OF m] have lo: "10 ^ (ndigits m - 1) \<le> m" and hi: "m < 10 ^ ndigits m"
    by simp_all
  from real_power_le_of_nat [OF lo] mb have A: "(10::real) ^ (ndigits m - 1) < b"
    by linarith
  from real_of_nat_lt_power [OF hi] bm have B: "b \<le> (10::real) ^ ndigits m"
    by linarith
  have ab: "a = 1 / b"
    using assms by (simp add: b_def)
  have bpos: "0 < b"
    using b1 by linarith
  have P: "0 < (10::real) ^ ndigits m" and Q: "0 < (10::real) ^ (ndigits m - 1)"
    by simp_all
  from B bpos P have lower: "1 / 10 ^ ndigits m \<le> a"
    unfolding ab by (intro divide_left_mono) simp_all
  from A bpos Q have upper: "a < 1 / 10 ^ (ndigits m - 1)"
    unfolding ab by (intro divide_strict_left_mono) simp_all
  have p1: "(10::real) powi (- int (ndigits m)) = 1 / 10 ^ ndigits m"
    by (simp only: power_int_minus power_int_of_nat inverse_eq_divide)
  have "- int (ndigits m) + 1 = - int (ndigits m - 1)"
    using dm by linarith
  then have p2: "(10::real) powi (- int (ndigits m) + 1) = 1 / 10 ^ (ndigits m - 1)"
    by (simp only: power_int_minus power_int_of_nat inverse_eq_divide)
  from lower upper show ?thesis
    unfolding e p1 p2 by (rule conjI)
qed

lemma decimal_exponent_floor_log:
  assumes "0 < a"
  shows "decimal_exponent a = \<lfloor>log 10 a\<rfloor>"
  using decimal_exponent_bounds [OF assms] floor_log10_eqI [of "decimal_exponent a" a] by simp

lemma length_show_nat_lt_10: "k < 10 \<Longrightarrow> length (show_nat k) = 1"
  by (subst show_nat.simps) simp

lemma length_show_nat_lt_100:
  assumes "k < 100"
  shows "length (show_nat k) \<le> 2"
proof (cases "k < 10")
  case True
  then show ?thesis by (simp add: length_show_nat_lt_10)
next
  case False
  from assms have "k div 10 < 10" by simp
  then have "length (show_nat (k div 10)) = 1"
    by (rule length_show_nat_lt_10)
  with False show ?thesis
    by (subst show_nat.simps) simp
qed

lemma zero_pad_two_digits:
  assumes "k < 100"
  shows "\<exists>d1 d2. zero_pad 2 (show_nat k) = [d1, d2]"
proof -
  have "length (zero_pad 2 (show_nat k)) = 2"
    using length_show_nat_lt_100 [OF assms] by (simp add: zero_pad_def)
  then show ?thesis
    by (auto simp: length_Suc_conv numeral_2_eq_2)
qed

lemma round_half_even_near: "\<bar>of_int (round_half_even x) - x\<bar> \<le> 1 / 2"
  unfolding round_half_even_def Let_def by (auto simp: abs_if) linarith+

lemma round_half_even_eqI:
  assumes "\<bar>of_int n - x\<bar> < 1 / 2"
  shows "round_half_even x = n"
proof -
  have "\<bar>of_int (round_half_even x) - x\<bar> \<le> 1 / 2"
    by (rule round_half_even_near)
  with assms have "\<bar>(of_int (round_half_even x) :: real) - of_int n\<bar> < 1"
    by linarith
  then have "\<bar>round_half_even x - n\<bar> < 1"
    by (metis of_int_1 of_int_abs of_int_diff of_int_less_iff)
  then show ?thesis by linarith
qed

lemma round_half_even_of_int: "round_half_even (of_int n) = n"
  by (rule round_half_even_eqI) simp

lemma round_half_even_nonneg: "0 \<le> x \<Longrightarrow> 0 \<le> round_half_even x"
  unfolding round_half_even_def Let_def by (auto simp: abs_if) 

lemma round_half_even_tie:
  "x - of_int \<lfloor>x\<rfloor> = 1 / 2 \<Longrightarrow> even (round_half_even x)"
  unfolding round_half_even_def Let_def by auto

lemma ln10_ge_2: "2 \<le> ln (10::real)"
proof -
  have "exp (2::real) = exp 1 * exp 1"
    by (simp add: exp_add [symmetric])
  also have "\<dots> \<le> 3 * 3"
    by (intro mult_mono exp_le) simp_all
  finally have "exp (2::real) \<le> 10"
    by simp
  then show ?thesis
    by (simp add: ln_ge_iff)
qed

lemma powr10_ge:
  fixes s :: real
  assumes "0 \<le> s"
  shows "1 + 2 * s \<le> 10 powr s"
proof -
  have "s * 2 \<le> s * ln 10"
    using assms ln10_ge_2 by (rule mult_left_mono [rotated])
  then have "1 + 2 * s \<le> 1 + s * ln 10"
    by simp
  also have "\<dots> \<le> exp (s * ln 10)"
    by (rule exp_ge_add_one_self)
  finally show ?thesis
    by (simp add: powr_def)
qed

lemma log10_float_below_1000:
  "3 - 1 / 2 ^ 52 < log 10 float_below_1000" "log 10 float_below_1000 < 3"
proof -
  have pos: "0 < float_below_1000"
    by (simp add: float_below_1000_def)
  have l3: "log 10 (1000::real) = 3"
    using log_pow_cancel [of "10::real" 3] by simp
  have "float_below_1000 < 1000"
    by (simp add: float_below_1000_def)
  then have "log 10 float_below_1000 < log 10 1000"
    using pos by simp
  then show "log 10 float_below_1000 < 3"
    by (simp only: l3)
  define s :: real where "s = 1 / 2 ^ 52"
  have s0: "0 \<le> s"
    by (simp add: s_def)
  have "(10::real) powr (3 - s) = 10 powr 3 / 10 powr s"
    by (rule powr_diff)
  also have "\<dots> = 1000 / 10 powr s"
    by simp
  also have "\<dots> \<le> 1000 / (1 + 2 * s)"
    using powr10_ge [OF s0] s0 by (intro divide_left_mono) (simp_all add: add_pos_nonneg)
  also have "\<dots> < float_below_1000"
    by (simp add: s_def float_below_1000_def field_simps)
  finally have "10 powr (3 - s) < float_below_1000" .
  then have "3 - s < log 10 float_below_1000"
    using pos by (simp add: less_log_iff)
  then show "3 - 1 / 2 ^ 52 < log 10 float_below_1000"
    by (simp only: s_def)
qed

lemma round_to_double_below_3:
  assumes "3 - 1 / 2 ^ 52 < z" and "z < 3"
  shows "round_to_double z = 3"
proof -
  have z: "0 < z" "z \<noteq> 0" "\<bar>z\<bar> = z"
    using assms(1) by simp_all
  have "2 powr (of_int 1) \<le> z \<and> z < 2 powr (of_int (1 + 1))"
    using assms by simp
  then have e: "\<lfloor>log 2 z\<rfloor> = 1"
    using z(1) floor_log_eq_powr_iff [of z 2 1] by simp
  have u: "(2::real) powi (max 1 (- 1022) - 52) = 1 / 2 ^ 51"
    by (simp add: power_int_minus field_simps)
  have "\<bar>of_int (3 * 2 ^ 51) - z / (1 / 2 ^ 51)\<bar> < 1 / 2"
    using assms by (simp add: abs_less_iff field_simps)
  then have "round_half_even (z / (1 / 2 ^ 51)) = 3 * 2 ^ 51"
    by (rule round_half_even_eqI)
  then show ?thesis
    unfolding round_to_double_def Let_def z(3) e u using z(2) by simp
qed

lemma float_log10_below_1000: "float_log10 float_below_1000 = 3"
  unfolding float_log10_def
  using log10_float_below_1000 by (rule round_to_double_below_3)

lemma floor_log10_below_1000: "\<lfloor>log 10 float_below_1000\<rfloor> = 2"
  by (rule floor_log10_eqI) (simp_all add: float_below_1000_def)

lemma format_sig_figs_at_below_1000:
  "format_sig_figs float_log10 (Finite float_below_1000) (Some 2) = Inr 4"
proof -
  have nz: "float_below_1000 \<noteq> 0" and pos: "\<bar>float_below_1000\<bar> = float_below_1000"
    by (simp_all add: float_below_1000_def)
  from format_sig_figs_finite [OF nz, of float_log10 "Some 2"] show ?thesis
    by (simp add: pos float_log10_below_1000)
qed

text \<open>
  C6: at zero (of either sign) \<^verbatim>\<open>_format_sig_figs\<close> returns 1 for every default, and
  the logarithm is not taken of zero: whenever the test \<^verbatim>\<open>value == 0\<close> fails, the
  argument \<^verbatim>\<open>np.abs(value)\<close> of \<^verbatim>\<open>np.log10\<close> is not zero and the logarithm is not
  \<open>-inf\<close>.
\<close>

theorem format_sig_figs_zero:
  "format_sig_figs lg (Finite 0) dflt = Inr 1
   \<and> format_sig_figs lg NegZero dflt = Inr 1
   \<and> (\<not> float_eq v (Finite 0)
        \<longrightarrow> \<not> float_eq (np_abs v) (Finite 0) \<and> np_log10 lg (np_abs v) \<noteq> NegInf)"
  by (simp add: format_sig_figs_is_zero np_abs_not_zero np_log10_abs_not_neg_inf)

theorem format_sig_figs_zero_witness:
  "format_sig_figs (log 10) (Finite 0) (Some 2) = Inr 1
   \<and> format_sig_figs (log 10) (Finite 0) None = Inr 1
   \<and> \<not> float_eq (Finite 5) (Finite 0)
   \<and> \<not> float_eq (np_abs (Finite 5)) (Finite 0)
   \<and> np_log10 (log 10) (np_abs (Finite 5)) \<noteq> NegInf"
  using format_sig_figs_zero [of "log 10" "Some 2" "Finite 5"]
    format_sig_figs_zero [of "log 10" None "Finite 5"]
  by simp

section \<open>Properties of the formatter\<close>

lemma digit_char_cases:
  assumes "d < 10"
  shows "d = 0 \<or> d = 1 \<or> d = 2 \<or> d = 3 \<or> d = 4 \<or> d = 5 \<or> d = 6 \<or> d = 7 \<or> d = 8 \<or> d = (9::nat)"
  using assms by arith

lemma digit_value_digit_char: "d < 10 \<Longrightarrow> digit_value (digit_char d) = d"
  using digit_char_cases [of d] by (auto simp: digit_value_def digit_char_def)

lemma is_digit_digit_char: "d < 10 \<Longrightarrow> is_digit (digit_char d)"
  using digit_char_cases [of d] by (auto simp: is_digit_def digit_char_def)

lemma read_nat_snoc: "read_nat (s @ [c]) = 10 * read_nat s + digit_value c"
  by (simp add: read_nat_def)

lemma read_nat_show_nat: "read_nat (show_nat n) = n"
proof (induction n rule: show_nat.induct)
  case (1 n)
  show ?case
  proof (cases "n < 10")
    case True
    then show ?thesis
      by (subst show_nat.simps) (simp add: read_nat_def digit_value_digit_char)
  next
    case False
    then have "read_nat (show_nat n) = 10 * read_nat (show_nat (n div 10)) + digit_value (digit_char (n mod 10))"
      by (subst show_nat.simps) (simp add: read_nat_snoc)
    also have "\<dots> = 10 * (n div 10) + n mod 10"
      using "1.IH" [OF False] by (simp add: digit_value_digit_char)
    finally show ?thesis by simp
  qed
qed

lemma digits_show_nat: "c \<in> set (show_nat n) \<Longrightarrow> is_digit c"
proof (induction n rule: show_nat.induct)
  case (1 n)
  show ?case
  proof (cases "n < 10")
    case True
    with "1.prems" show ?thesis
      by (subst (asm) show_nat.simps) (simp add: is_digit_digit_char)
  next
    case False
    with "1.prems" have "c \<in> set (show_nat (n div 10)) \<or> c = digit_char (n mod 10)"
      by (subst (asm) show_nat.simps) auto
    then show ?thesis
      using "1.IH" [OF False] by (auto simp: is_digit_digit_char)
  qed
qed

lemma read_nat_zeros: "foldl (\<lambda>n c. 10 * n + digit_value c) 0 (replicate k (CHR ''0'')) = 0"
  by (induction k) (simp_all add: digit_value_def)

lemma read_nat_zero_pad: "read_nat (zero_pad w s) = read_nat s"
  by (simp add: read_nat_def zero_pad_def read_nat_zeros)

lemma digits_zero_pad: "c \<in> set (zero_pad w s) \<Longrightarrow> c \<in> set s \<or> c = CHR ''0''"
  by (auto simp: zero_pad_def)

lemma is_digit_zero: "is_digit (CHR ''0'')"
  by (simp add: is_digit_def)

text \<open>The digits of the fixed format with two decimals, and the number they denote.\<close>

lemma fixed_digits_two_value:
  assumes "0 \<le> a"
  shows "\<exists>i d1 d2. fixed_digits 2 a = (i, [d1, d2])
           \<and> (\<forall>c \<in> set (i @ [d1, d2]). is_digit c)
           \<and> i = show_nat (read_nat i)
           \<and> int (100 * read_nat i + read_nat [d1, d2]) = round_half_even (a * 100)"
proof -
  define n where "n = nat (round_half_even (a * 100))"
  have n: "int n = round_half_even (a * 100)"
    using assms round_half_even_nonneg [of "a * 100"] by (simp add: n_def)
  have lt: "n mod 100 < 100"
    by simp
  from zero_pad_two_digits [OF lt] obtain d1 d2 where d: "zero_pad 2 (show_nat (n mod 100)) = [d1, d2]"
    by blast
  have fd: "fixed_digits 2 a = (show_nat (n div 100), [d1, d2])"
    using d by (simp add: fixed_digits_def n_def Let_def)
  have "read_nat [d1, d2] = n mod 100"
    using read_nat_zero_pad [of 2 "show_nat (n mod 100)"] by (simp add: d read_nat_show_nat)
  then have "100 * read_nat (show_nat (n div 100)) + read_nat [d1, d2] = n"
    by (simp add: read_nat_show_nat)
  with n have val: "int (100 * read_nat (show_nat (n div 100)) + read_nat [d1, d2])
      = round_half_even (a * 100)"
    by simp
  have "\<forall>c \<in> set [d1, d2]. is_digit c"
    using digits_zero_pad [of _ 2 "show_nat (n mod 100)"] digits_show_nat is_digit_zero
    unfolding d by blast
  then have dig: "\<forall>c \<in> set (show_nat (n div 100) @ [d1, d2]). is_digit c"
    using digits_show_nat by auto
  have can: "show_nat (n div 100) = show_nat (read_nat (show_nat (n div 100)))"
    by (simp add: read_nat_show_nat)
  from fd dig can val show ?thesis
    by blast
qed

lemma py_format_f_two_value:
  "\<exists>i d1 d2. py_format_f 2 (Finite r) = (if r < 0 then ''-'' else []) @ i @ [CHR ''.'', d1, d2]
     \<and> (\<forall>c \<in> set (i @ [d1, d2]). is_digit c)
     \<and> i = show_nat (read_nat i)
     \<and> \<bar>real (read_nat i) + real (read_nat [d1, d2]) / 100 - \<bar>r\<bar>\<bar> \<le> 1 / 200
     \<and> (\<bar>r\<bar> * 100 - of_int \<lfloor>\<bar>r\<bar> * 100\<rfloor> = 1 / 2 \<longrightarrow> even (read_nat [d1, d2]))"
proof -
  from fixed_digits_two_value [of "\<bar>r\<bar>"] obtain i d1 d2 where
    fd: "fixed_digits 2 \<bar>r\<bar> = (i, [d1, d2])" and
    dg: "\<forall>c \<in> set (i @ [d1, d2]). is_digit c" and
    ca: "i = show_nat (read_nat i)" and
    va: "int (100 * read_nat i + read_nat [d1, d2]) = round_half_even (\<bar>r\<bar> * 100)"
    by auto
  have str: "py_format_f 2 (Finite r) = (if r < 0 then ''-'' else []) @ i @ [CHR ''.'', d1, d2]"
    by (simp add: py_format_f.simps fd with_point_def)
  from va have "real (100 * read_nat i + read_nat [d1, d2]) = of_int (round_half_even (\<bar>r\<bar> * 100))"
    by (metis of_int_of_nat_eq)
  with round_half_even_near [of "\<bar>r\<bar> * 100"]
  have "\<bar>real (100 * read_nat i + read_nat [d1, d2]) - \<bar>r\<bar> * 100\<bar> \<le> 1 / 2"
    by simp
  then have near: "\<bar>real (read_nat i) + real (read_nat [d1, d2]) / 100 - \<bar>r\<bar>\<bar> \<le> 1 / 200"
    by (simp add: abs_le_iff field_simps)
  have tie: "even (read_nat [d1, d2])" if "\<bar>r\<bar> * 100 - of_int \<lfloor>\<bar>r\<bar> * 100\<rfloor> = 1 / 2"
  proof -
    from round_half_even_tie [OF that] va have "even (int (100 * read_nat i + read_nat [d1, d2]))"
      by simp
    then have "even (100 * read_nat i + read_nat [d1, d2])"
      by (simp only: even_of_nat_iff)
    then show ?thesis by simp
  qed
  from str dg ca near tie show ?thesis
    by blast
qed

lemma py_format_f_examples:
  "py_format_f 2 (Finite float_3_14159) = ''3.14''"
  "py_format_f 2 (Finite (3 / 8)) = ''0.38''"
  "py_format_f 2 (Finite float_1_999) = ''2.00''"
  "py_format_f 2 (Finite (1 / 8)) = ''0.12''"
  "py_format_f 2 (Finite (- 1 / 8)) = ''-0.12''"
  "py_format_f 2 NegZero = ''-0.00''"
  "py_format_f 2 NaN = ''nan''"
  "py_format_f 2 PosInf = ''inf''"
  "py_format_f 2 NegInf = ''-inf''"
  by code_simp+

text \<open>
  C5: a float is rendered with two decimals whatever \<^verbatim>\<open>round_to\<close> is: the result is
  \<^verbatim>\<open>f"{x:.2f}"\<close>. For a finite \<open>x\<close> that is a sign, the digits of an integer without
  leading zeros, a point and two digits; the number they denote is within 0.005 of
  \<open>\<bar>x\<bar>\<close>, and of two numbers equally near the one with the even last digit is taken.
  \<^verbatim>\<open>3.14159\<close> gives \<^verbatim>\<open>3.14\<close>, \<^verbatim>\<open>0.375\<close> gives \<^verbatim>\<open>0.38\<close>, \<^verbatim>\<open>1.999\<close> gives
  \<^verbatim>\<open>2.00\<close> and \<^verbatim>\<open>0.125\<close> gives \<^verbatim>\<open>0.12\<close>.
\<close>

theorem convert_to_string_float:
  "convert_to_string lg quantile mean (Scalar (PyFloat f)) round_to = Inr (py_format_f 2 f)
   \<and> convert_to_string lg quantile mean (Scalar (PyFloat f)) r1
       = convert_to_string lg quantile mean (Scalar (PyFloat f)) r2
   \<and> (\<exists>i d1 d2.
         convert_to_string lg quantile mean (Scalar (PyFloat (Finite r))) round_to
           = Inr ((if r < 0 then ''-'' else []) @ i @ [CHR ''.'', d1, d2])
         \<and> (\<forall>c \<in> set (i @ [d1, d2]). is_digit c)
         \<and> i = show_nat (read_nat i)
         \<and> \<bar>real (read_nat i) + real (read_nat [d1, d2]) / 100 - \<bar>r\<bar>\<bar> \<le> 1 / 200
         \<and> (\<bar>r\<bar> * 100 - of_int \<lfloor>\<bar>r\<bar> * 100\<rfloor> = 1 / 2 \<longrightarrow> even (read_nat [d1, d2])))
   \<and> convert_to_string lg quantile mean (Scalar (PyFloat (Finite float_3_14159))) (Some 2)
       = Inr ''3.14''
   \<and> convert_to_string lg quantile mean (Scalar (PyFloat (Finite (3 / 8)))) (Some 2) = Inr ''0.38''
   \<and> convert_to_string lg quantile mean (Scalar (PyFloat (Finite float_1_999))) (Some 2)
       = Inr ''2.00''
   \<and> convert_to_string lg quantile mean (Scalar (PyFloat (Finite (1 / 8)))) (Some 2) = Inr ''0.12''
   \<and> convert_to_string lg quantile mean (Scalar (PyFloat NegZero)) (Some 2) = Inr ''-0.00''
   \<and> convert_to_string lg quantile mean (Scalar (PyFloat NaN)) (Some 2) = Inr ''nan''
   \<and> convert_to_string lg quantile mean (Scalar (PyFloat PosInf)) (Some 2) = Inr ''inf''
   \<and> convert_to_string lg quantile mean (Scalar (PyFloat NegInf)) (Some 2) = Inr ''-inf''"
proof -
  have branch: "convert_to_string lg quantile mean (Scalar (PyFloat g)) rt = Inr (py_format_f 2 g)"
    for g rt
    by (simp add: convert_to_string_def)
  show ?thesis
    unfolding branch using py_format_f_two_value [of r] by (simp add: py_format_f_examples)
qed

theorem convert_to_string_float_witness:
  "convert_to_string float_log10 sm_quantile sm_mean (Scalar (PyFloat (Finite (- 1 / 8)))) (Some 7)
     = Inr ''-0.12''
   \<and> convert_to_string float_log10 sm_quantile sm_mean (Scalar (PyFloat (Finite (- 1 / 8)))) (Some 7)
     = convert_to_string float_log10 sm_quantile sm_mean (Scalar (PyFloat (Finite (- 1 / 8)))) None"
proof -
  from convert_to_string_float
    [where lg = float_log10 and quantile = sm_quantile and mean = sm_mean
       and f = "Finite (- 1 / 8)" and round_to = "Some 7" and ?r1.0 = "Some 7" and ?r2.0 = None
       and r = 0]
  have "convert_to_string float_log10 sm_quantile sm_mean (Scalar (PyFloat (Finite (- 1 / 8))))
          (Some 7) = Inr (py_format_f 2 (Finite (- 1 / 8)))"
    and "convert_to_string float_log10 sm_quantile sm_mean (Scalar (PyFloat (Finite (- 1 / 8))))
          (Some 7)
       = convert_to_string float_log10 sm_quantile sm_mean (Scalar (PyFloat (Finite (- 1 / 8)))) None"
    by blast+
  then show ?thesis
    by (metis py_format_f_examples(5))
qed

text \<open>
  C9: a scalar that is no float (an int, a bool, a string, \<^verbatim>\<open>None\<close>) does not take
  the first branch; the second asks it for \<^verbatim>\<open>quantile\<close>, which it has not, and the
  call raises \<^verbatim>\<open>AttributeError\<close> instead of returning a string.
\<close>

theorem convert_to_string_not_float:
  assumes "\<forall>f. v \<noteq> PyFloat f"
  shows "convert_to_string lg quantile mean (Scalar v) round_to = Inl AttributeError"
  using assms by (cases v) (simp_all add: convert_to_string_def)

theorem convert_to_string_not_float_witness:
  "convert_to_string (log 10) sm_quantile sm_mean (Scalar (PyInt 3)) (Some 2) = Inl AttributeError"
proof -
  have "\<forall>f. PyInt 3 \<noteq> PyFloat f"
    by simp
  from convert_to_string_not_float [OF this] show ?thesis .
qed

section \<open>Properties of the float logarithm and of the interval\<close>

lemma round_to_double_error:
  "\<bar>round_to_double z - z\<bar> \<le> (\<bar>z\<bar> + 1) / 2 ^ 53"
proof (cases "z = 0")
  case True
  then show ?thesis by (simp add: round_to_double_def)
next
  case False
  define e where "e = max \<lfloor>log 2 \<bar>z\<bar>\<rfloor> (- 1022)"
  define u :: real where "u = 2 powi (e - 52)"
  have upos: "0 < u"
    by (simp add: u_def)
  have r: "round_to_double z = of_int (round_half_even (z / u)) * u"
    using False by (simp add: round_to_double_def Let_def e_def u_def)
  have "\<bar>of_int (round_half_even (z / u)) - z / u\<bar> \<le> 1 / 2"
    by (rule round_half_even_near)
  then have "\<bar>of_int (round_half_even (z / u)) - z / u\<bar> * u \<le> 1 / 2 * u"
    using upos by (intro mult_right_mono) simp_all
  moreover have "(of_int (round_half_even (z / u)) - z / u) * u
      = of_int (round_half_even (z / u)) * u - z"
    using upos by (simp add: left_diff_distrib)
  then have "\<bar>of_int (round_half_even (z / u)) - z / u\<bar> * u
      = \<bar>of_int (round_half_even (z / u)) * u - z\<bar>"
    using upos by (metis abs_mult abs_of_pos)
  ultimately have err: "\<bar>round_to_double z - z\<bar> \<le> u / 2"
    by (simp add: r)
  have "u \<le> (\<bar>z\<bar> + 1) / 2 ^ 52"
  proof (cases "- 1022 \<le> \<lfloor>log 2 \<bar>z\<bar>\<rfloor>")
    case True
    then have e: "e = \<lfloor>log 2 \<bar>z\<bar>\<rfloor>"
      by (simp add: e_def)
    have "2 powr (of_int \<lfloor>log 2 \<bar>z\<bar>\<rfloor>) \<le> 2 powr (log 2 \<bar>z\<bar>)"
      by (intro powr_mono) simp_all
    also have "\<dots> = \<bar>z\<bar>"
      using False by simp
    finally have "2 powi e \<le> \<bar>z\<bar>"
      by (simp add: e powr_real_of_int')
    moreover have "u = 2 powi e / 2 ^ 52"
      by (simp add: u_def power_int_diff)
    ultimately show ?thesis
      by (simp add: divide_right_mono)
  next
    case False
    then have e: "e = - 1022"
      by (simp add: e_def)
    have "u = 1 / 2 ^ 1074"
      by (simp add: u_def e power_int_minus field_simps)
    also have "\<dots> \<le> 1 / 2 ^ 52"
      by (intro divide_left_mono power_increasing) simp_all
    also have "\<dots> \<le> (\<bar>z\<bar> + 1) / 2 ^ 52"
      by (intro divide_right_mono) simp_all
    finally show ?thesis .
  qed
  then have "u / 2 \<le> (\<bar>z\<bar> + 1) / 2 ^ 53"
    by simp
  with err show ?thesis
    by linarith
qed









lemma log10_between_powers:
  fixes x :: real
  assumes "0 < x" and "0 < n" and "10 powi a \<le> x ^ n" and "x ^ n \<le> 10 powi b"
  shows "of_int a / real n \<le> log 10 x" and "log 10 x \<le> of_int b / real n"
proof -
  have xn: "0 < x ^ n"
    using assms(1) by simp
  have l: "log 10 (x ^ n) = real n * log 10 x"
    using assms(1) by (intro log_nat_power) simp
  have pa: "(10::real) powr (of_int a) = 10 powi a" and pb: "(10::real) powr (of_int b) = 10 powi b"
    by (rule powr_real_of_int', simp, simp)+
  from assms(3) have "of_int a \<le> log 10 (x ^ n)"
    using xn by (simp add: le_log_iff pa)
  then show "of_int a / real n \<le> log 10 x"
    using assms(2) by (simp add: l field_simps)
  from assms(4) have "log 10 (x ^ n) \<le> of_int b"
    using xn by (simp add: log_le_iff pb)
  then show "log 10 x \<le> of_int b / real n"
    using assms(2) by (simp add: l field_simps)
qed

lemma float_log10_between:
  assumes "of_int k + 1 / 16 \<le> log 10 x" and "log 10 x \<le> of_int k + 15 / 16"
    and "\<bar>k\<bar> \<le> 1000"
  shows "of_int k < float_log10 x" and "float_log10 x < of_int k + 1"
proof -
  define z where "z = log 10 x"
  from assms have "\<bar>z\<bar> \<le> 1001"
    unfolding z_def by linarith
  then have "(\<bar>z\<bar> + 1) / 2 ^ 53 \<le> 1002 / 2 ^ 53"
    by (intro divide_right_mono) simp_all
  also have "\<dots> < (1 / 16 :: real)"
    by simp
  finally have "(\<bar>z\<bar> + 1) / 2 ^ 53 < 1 / 16" .
  with round_to_double_error [of z] have e: "\<bar>round_to_double z - z\<bar> < 1 / 16"
    by linarith
  from e assms(1) show "of_int k < float_log10 x"
    unfolding float_log10_def z_def [symmetric] by linarith
  from e assms(2) show "float_log10 x < of_int k + 1"
    unfolding float_log10_def z_def [symmetric] by linarith
qed

lemma format_sig_figs_between:
  assumes "r \<noteq> 0" and "0 < n"
    and "10 powi a \<le> \<bar>r\<bar> ^ n" and "\<bar>r\<bar> ^ n \<le> 10 powi b"
    and "of_int k + 1 / 16 \<le> of_int a / real n" and "of_int b / real n \<le> of_int k + 15 / 16"
    and "\<bar>k\<bar> \<le> 1000"
  shows "format_sig_figs float_log10 (Finite r) round_to =
           Inr (max ((if k < 0 then k + 1 else k) + 1) (case round_to of None \<Rightarrow> 2 | Some d \<Rightarrow> d))"
proof -
  have pos: "0 < \<bar>r\<bar>"
    using assms(1) by simp
  from log10_between_powers [OF pos assms(2,3,4)] assms(5,6)
  have "of_int k + 1 / 16 \<le> log 10 \<bar>r\<bar>" and "log 10 \<bar>r\<bar> \<le> of_int k + 15 / 16"
    by linarith+
  from float_log10_between [OF this assms(7)]
  have b: "of_int k < float_log10 \<bar>r\<bar>" "float_log10 \<bar>r\<bar> < of_int k + 1" .
  have "(if float_log10 \<bar>r\<bar> < 0 then \<lceil>float_log10 \<bar>r\<bar>\<rceil> else \<lfloor>float_log10 \<bar>r\<bar>\<rfloor>)
      = (if k < 0 then k + 1 else k)"
  proof (cases "k < 0")
    case True
    then have "k + 1 \<le> 0"
      by simp
    then have "real_of_int (k + 1) \<le> 0"
      by (simp only: of_int_le_0_iff)
    then have "of_int k + 1 \<le> (0::real)"
      by simp
    with b have neg: "float_log10 \<bar>r\<bar> < 0"
      by linarith
    from b have "\<lceil>float_log10 \<bar>r\<bar>\<rceil> = k + 1"
      by (intro ceiling_unique) simp_all
    with neg True show ?thesis by simp
  next
    case False
    then have "(0::real) \<le> of_int k"
      by simp
    with b have nn: "\<not> float_log10 \<bar>r\<bar> < 0"
      by linarith
    from b have "\<lfloor>float_log10 \<bar>r\<bar>\<rfloor> = k"
      by (intro floor_unique) simp_all
    with nn False show ?thesis by simp
  qed
  then show ?thesis
    unfolding format_sig_figs_finite [OF assms(1)] by simp
qed



lemma format_sig_figs_123_4:
  "format_sig_figs float_log10 (Finite float_123_4) (Some 2) = Inr 3"
proof -
  have "(10::real) powi 33 \<le> \<bar>float_123_4\<bar> ^ 16" and "\<bar>float_123_4\<bar> ^ 16 \<le> 10 powi 47"
    by (simp_all add: float_123_4_def power_divide field_simps)
  moreover have "float_123_4 \<noteq> 0"
    by (simp add: float_123_4_def)
  ultimately show ?thesis
    using format_sig_figs_between [of float_123_4 16 33 47 2 "Some 2"] by simp
qed

lemma format_sig_figs_0_1234:
  "format_sig_figs float_log10 (Finite float_0_1234) (Some 2) = Inr 2"
proof -
  have "(10::real) powi (- 15) \<le> \<bar>float_0_1234\<bar> ^ 16"
    and "\<bar>float_0_1234\<bar> ^ 16 \<le> 10 powi (- 1)"
    by (simp_all add: float_0_1234_def power_int_minus power_divide field_simps)
  moreover have "float_0_1234 \<noteq> 0"
    by (simp add: float_0_1234_def)
  ultimately show ?thesis
    using format_sig_figs_between [of float_0_1234 16 "- 15" "- 1" "- 1" "Some 2"] by simp
qed

text \<open>
  C4: at \<^verbatim>\<open>999.9999999999999\<close>, the float next below 1000, with the default 2 the claim's
  \<open>max (\<lfloor>log10 \<bar>value\<bar>\<rfloor> + 1) default\<close> is 3, the digits of the integer part that the
  docstring promises. \<^verbatim>\<open>_format_sig_figs\<close> returns 4: the logarithm lies less than half
  a unit in the last place below 3, \<^verbatim>\<open>np.log10\<close> returns the float 3.0, and
  \<^verbatim>\<open>int(3.0) + 1\<close> is 4. At the specification's own examples, \<^verbatim>\<open>0.1234\<close> and
  \<^verbatim>\<open>123.4\<close>, the code returns what the claim says, 2 and 3.
\<close>

theorem format_sig_figs_below_1000:
  "format_sig_figs float_log10 (Finite float_below_1000) (Some 2) = Inr 4
   \<and> max (\<lfloor>log 10 \<bar>float_below_1000\<bar>\<rfloor> + 1) 2 = 3
   \<and> format_sig_figs float_log10 (Finite float_0_1234) (Some 2) = Inr 2
   \<and> format_sig_figs float_log10 (Finite float_123_4) (Some 2) = Inr 3"
proof -
  have "\<bar>float_below_1000\<bar> = float_below_1000"
    by (simp add: float_below_1000_def)
  then show ?thesis
    by (simp add: format_sig_figs_at_below_1000 floor_log10_below_1000 format_sig_figs_0_1234
        format_sig_figs_123_4)
qed










end
